theory Spec2Isabelle
  imports Main "HOL-Library.Word" "HOL-Library.Sublist"
begin

section \<open>Data model of chick.go\<close>

text \<open>
  The command-line structure \<^verbatim>\<open>CLI\<close>, the two JSON payloads and the per-address
  \<^verbatim>\<open>Result\<close>. Durations are kept as a number of nanoseconds. A Go \<^verbatim>\<open>error\<close> value is
  its message, \<open>None\<close> being \<^verbatim>\<open>nil\<close>; a \<^verbatim>\<open>nil\<close> slice is the empty list (the program only
  ever asks for the length of these slices).
\<close>

record CLI =
  IPv4 :: bool
  IPv6 :: bool
  Timeout :: nat
  ILineTimeout :: nat
  Target :: string

record IPInfo =
  InfoIP :: string
  Country :: string
  Org :: string

record server =
  ServerName :: string

record ILineInfo =
  Status :: string
  Response :: "server list"

record Result =
  IP :: string
  PTR :: "string list"
  IPInfo :: "IPInfo option"
  ILine :: "string list"
  IsIPv6 :: bool
  Error :: "string option"

text \<open>The five colour functions built with \<^verbatim>\<open>color.New(...).SprintFunc()\<close>.\<close>

record palette =
  cyan :: "string \<Rightarrow> string"
  yellow :: "string \<Rightarrow> string"
  green :: "string \<Rightarrow> string"
  red :: "string \<Rightarrow> string"
  magenta :: "string \<Rightarrow> string"

section \<open>The outside world\<close>

text \<open>
  \<^verbatim>\<open>net.IP\<close> is a byte slice. \<^verbatim>\<open>To4\<close> is the standard library's conversion: a 4-byte
  slice is returned as it is, a 16-byte slice holding an IPv4-mapped address gives its
  last four bytes, anything else gives \<^verbatim>\<open>nil\<close>.
\<close>

type_synonym net_IP = "8 word list"

definition To4 :: "net_IP \<Rightarrow> net_IP option" where
  "To4 ip =
     (if length ip = 4 then Some ip
      else if length ip = 16 \<and> list_all (\<lambda>b. b = 0) (take 10 ip)
              \<and> ip ! 10 = 0xff \<and> ip ! 11 = 0xff then Some (drop 12 ip)
      else None)"

text \<open>
  What an HTTP GET can come to, seen from the two fetch functions: the request cannot be
  built, the client's \<^verbatim>\<open>Do\<close> fails (transport error, timeout, cancelled context), reading
  the body fails, or a body arrives.
\<close>

datatype http_result =
  NewRequestError string
| DoError string
| ReadError string
| Body string

text \<open>
  Everything the program obtains from libraries and from the network is a field of the
  environment: the parser of IP literals and the printer of addresses, the three resolver
  calls, the HTTP exchange by URL, the two JSON decoders, and the colours. A failing call
  is \<open>Inl\<close> of its error message.
\<close>

record env =
  ParseIP :: "string \<Rightarrow> net_IP option"
  IPString :: "net_IP \<Rightarrow> string"
  LookupHost :: "string \<Rightarrow> string + string list"
  LookupIP :: "string \<Rightarrow> string + net_IP list"
  LookupAddr :: "string \<Rightarrow> string + string list"
  httpGet :: "string \<Rightarrow> http_result"
  decodeIPInfo :: "string \<Rightarrow> string + IPInfo"
  unmarshalILineInfo :: "string \<Rightarrow> string + ILineInfo"
  colors :: palette

section \<open>The two fetch functions\<close>

definition getIPInfo :: "env \<Rightarrow> string \<Rightarrow> string + IPInfo" where
  "getIPInfo e ip =
     (case httpGet e (''https://ipinfo.io/'' @ ip @ ''/json'') of
        NewRequestError err \<Rightarrow> Inl err
      | DoError err \<Rightarrow> Inl err
      | ReadError err \<Rightarrow> Inl err
      | Body b \<Rightarrow> decodeIPInfo e b)"

text \<open>The loop that appends every \<^verbatim>\<open>serverName\<close> of the response to \<^verbatim>\<open>servers\<close>.\<close>

fun appendServers :: "string list \<Rightarrow> server list \<Rightarrow> string list" where
  "appendServers servers [] = servers"
| "appendServers servers (s # rest) = appendServers (servers @ [ServerName s]) rest"

definition getILineInfo :: "env \<Rightarrow> string \<Rightarrow> string + string list" where
  "getILineInfo e ip =
     (case httpGet e (''https://bot.ircnet.info/api/i-line?q='' @ ip) of
        NewRequestError err \<Rightarrow> Inl err
      | DoError err \<Rightarrow> Inl err
      | ReadError err \<Rightarrow> Inl err
      | Body b \<Rightarrow>
          (case unmarshalILineInfo e b of
             Inl err \<Rightarrow> Inl err
           | Inr iLineInfo \<Rightarrow>
               if Status iLineInfo \<noteq> ''SUCCESS'' then Inl ''failed to get I-line info''
               else Inr (appendServers [] (Response iLineInfo))))"

section \<open>Rendering one record\<close>

definition nl :: string where
  "nl = [CHR 0x0A]"

fun Join :: "string list \<Rightarrow> string \<Rightarrow> string" where
  "Join [] sep = []"
| "Join [x] sep = x"
| "Join (x # y # ys) sep = x @ sep @ Join (y # ys) sep"

text \<open>\<^verbatim>\<open>printResult\<close> returns the chunks it writes to standard output, in order.\<close>

definition printResult :: "palette \<Rightarrow> Result \<Rightarrow> string list" where
  "printResult c r =
     [cyan c ((if IsIPv6 r then ''AAAA'' else ''A'') @ '' Record'') @ '': '' @ yellow c (IP r) @ nl]
     @ (if length (PTR r) > 0
        then [''  '' @ cyan c ''PTR Records'' @ '': '' @ green c (Join (PTR r) '', '') @ nl]
        else [])
     @ (case IPInfo r of
          Some i \<Rightarrow> [''  '' @ cyan c ''Country'' @ '': '' @ green c (Country i) @ nl,
                     ''  '' @ cyan c ''Organization'' @ '': '' @ green c (Org i) @ nl]
        | None \<Rightarrow> [])
     @ (if length (ILine r) > 0
        then [''  '' @ cyan c ''I-Line Servers'' @ '': '' @ green c (Join (ILine r) '', '') @ nl]
        else [])
     @ (case Error r of
          Some m \<Rightarrow> [''  '' @ red c ''Error'' @ '': '' @ red c m @ nl]
        | None \<Rightarrow> [])
     @ [nl]"

section \<open>One address: \<^verbatim>\<open>lookupIP\<close> and its three goroutines\<close>

text \<open>
  \<^verbatim>\<open>lookupIP\<close> starts three goroutines that share the local variable \<^verbatim>\<open>result\<close> and the
  wait group \<^verbatim>\<open>wgInternal\<close>, waits for them, sends \<^verbatim>\<open>result\<close> on the channel and, by its
  deferred call, decrements the outer wait group. The model is an interleaving of atomic
  steps, one program counter per goroutine:
  \<^item> the PTR goroutine has one step: the resolver call, the assignment that follows it, and
    \<^verbatim>\<open>wgInternal.Done()\<close>;
  \<^item> the IP-info and the I-line goroutine have one step when the fetch succeeds (the
    assignment and \<^verbatim>\<open>Done\<close>). When it fails they first test \<^verbatim>\<open>result.Error != nil\<close>; the
    outcome is kept in the program counter (\<open>Checked\<close>). Where the test found \<^verbatim>\<open>nil\<close>, the
    next step assigns the fresh message and calls \<^verbatim>\<open>Done\<close>. Where it found a message, the
    next step reads \<^verbatim>\<open>result.Error\<close> again, as an argument of \<^verbatim>\<open>fmt.Errorf\<close>, and keeps the
    formatted text in the program counter (\<open>Formatted\<close>); the assignment of that text, with
    \<^verbatim>\<open>Done\<close>, is a step of its own, so that other goroutines can write in between;
  \<^item> the function body itself (\<open>GoBody\<close>) has three steps: \<^verbatim>\<open>wgInternal.Wait()\<close>, enabled when the counter
    is zero, the send, enabled while the buffer of the channel has room, and the deferred
    \<^verbatim>\<open>wg.Done()\<close>.
  The field \<open>errorReads\<close> is a log kept beside the program: every read of \<^verbatim>\<open>result.Error\<close>
  adds the reading goroutine and the value of \<^verbatim>\<open>wgInternal\<close> at that moment.
\<close>

datatype goroutine = GoPTR | GoInfo | GoILine | GoBody

datatype gpc = Start | Checked bool string | Formatted string | Finished

datatype bpc = AtWait | AtSend | AtDone | Returned

record task =
  addr :: string
  result :: Result
  ptr_pc :: gpc
  info_pc :: gpc
  iline_pc :: gpc
  wgInternal :: int
  body_pc :: bpc
  errorReads :: "(goroutine \<times> int) list"

definition lookupIP_init :: "string \<Rightarrow> bool \<Rightarrow> task" where
  "lookupIP_init ip isIPv6 =
     \<lparr>addr = ip,
      result = \<lparr>IP = ip, PTR = [], IPInfo = None, ILine = [], IsIPv6 = isIPv6, Error = None\<rparr>,
      ptr_pc = Start, info_pc = Start, iline_pc = Start,
      wgInternal = 3, body_pc = AtWait, errorReads = []\<rparr>"

text \<open>The verb \<^verbatim>\<open>%v\<close> applied to an error.\<close>

definition errText :: "string option \<Rightarrow> string" where
  "errText x = (case x of None \<Rightarrow> ''<nil>'' | Some m \<Rightarrow> m)"

definition resultChanCap :: nat where
  "resultChanCap = 10"

text \<open>A task runs against the channel (its buffer, oldest first) and the outer wait group.\<close>

type_synonym tstate = "task \<times> Result list \<times> int"

definition ptr_step :: "env \<Rightarrow> task \<Rightarrow> task option" where
  "ptr_step e t =
     (case ptr_pc t of
        Start \<Rightarrow>
          Some (t\<lparr>result :=
                    (case LookupAddr e (addr t) of
                       Inl err \<Rightarrow> (result t)\<lparr>Error := Some (''error looking up PTR records: '' @ err)\<rparr>
                     | Inr names \<Rightarrow> (result t)\<lparr>PTR := names\<rparr>),
                  ptr_pc := Finished, wgInternal := wgInternal t - 1\<rparr>)
      | _ \<Rightarrow> None)"

definition info_step :: "env \<Rightarrow> task \<Rightarrow> task option" where
  "info_step e t =
     (case info_pc t of
        Start \<Rightarrow>
          (case getIPInfo e (addr t) of
             Inl err \<Rightarrow>
               Some (t\<lparr>info_pc := Checked (Error (result t) \<noteq> None) err,
                       errorReads := errorReads t @ [(GoInfo, wgInternal t)]\<rparr>)
           | Inr ipInfo \<Rightarrow>
               Some (t\<lparr>result := (result t)\<lparr>IPInfo := Some ipInfo\<rparr>,
                       info_pc := Finished, wgInternal := wgInternal t - 1\<rparr>))
      | Checked b err \<Rightarrow>
          if b
          then Some (t\<lparr>info_pc := Formatted (errText (Error (result t)) @ ''; error fetching IP info: '' @ err),
                       errorReads := errorReads t @ [(GoInfo, wgInternal t)]\<rparr>)
          else Some (t\<lparr>result := (result t)\<lparr>Error := Some (''error fetching IP info: '' @ err)\<rparr>,
                       info_pc := Finished, wgInternal := wgInternal t - 1\<rparr>)
      | Formatted m \<Rightarrow>
          Some (t\<lparr>result := (result t)\<lparr>Error := Some m\<rparr>,
                  info_pc := Finished, wgInternal := wgInternal t - 1\<rparr>)
      | Finished \<Rightarrow> None)"

definition iline_step :: "env \<Rightarrow> task \<Rightarrow> task option" where
  "iline_step e t =
     (case iline_pc t of
        Start \<Rightarrow>
          (case getILineInfo e (addr t) of
             Inl err \<Rightarrow>
               Some (t\<lparr>iline_pc := Checked (Error (result t) \<noteq> None) err,
                       errorReads := errorReads t @ [(GoILine, wgInternal t)]\<rparr>)
           | Inr iLine \<Rightarrow>
               Some (t\<lparr>result := (result t)\<lparr>ILine := iLine\<rparr>,
                       iline_pc := Finished, wgInternal := wgInternal t - 1\<rparr>))
      | Checked b err \<Rightarrow>
          if b
          then Some (t\<lparr>iline_pc := Formatted (errText (Error (result t)) @ ''; error fetching I-line info: '' @ err),
                       errorReads := errorReads t @ [(GoILine, wgInternal t)]\<rparr>)
          else Some (t\<lparr>result := (result t)\<lparr>Error := Some (''error fetching I-line info: '' @ err)\<rparr>,
                       iline_pc := Finished, wgInternal := wgInternal t - 1\<rparr>)
      | Formatted m \<Rightarrow>
          Some (t\<lparr>result := (result t)\<lparr>Error := Some m\<rparr>,
                  iline_pc := Finished, wgInternal := wgInternal t - 1\<rparr>)
      | Finished \<Rightarrow> None)"

definition body_step :: "tstate \<Rightarrow> tstate option" where
  "body_step s =
     (case s of (t, ch, w) \<Rightarrow>
        (case body_pc t of
           AtWait \<Rightarrow> if wgInternal t = 0 then Some (t\<lparr>body_pc := AtSend\<rparr>, ch, w) else None
         | AtSend \<Rightarrow>
             if length ch < resultChanCap
             then Some (t\<lparr>body_pc := AtDone,
                          errorReads := errorReads t @ [(GoBody, wgInternal t)]\<rparr>,
                        ch @ [result t], w)
             else None
         | AtDone \<Rightarrow> Some (t\<lparr>body_pc := Returned\<rparr>, ch, w - 1)
         | Returned \<Rightarrow> None))"

definition lookupIP_step :: "env \<Rightarrow> goroutine \<Rightarrow> tstate \<Rightarrow> tstate option" where
  "lookupIP_step e g s =
     (case s of (t, ch, w) \<Rightarrow>
        (case g of
           GoPTR \<Rightarrow> map_option (\<lambda>t'. (t', ch, w)) (ptr_step e t)
         | GoInfo \<Rightarrow> map_option (\<lambda>t'. (t', ch, w)) (info_step e t)
         | GoILine \<Rightarrow> map_option (\<lambda>t'. (t', ch, w)) (iline_step e t)
         | GoBody \<Rightarrow> body_step s))"

text \<open>A schedule names the goroutine that moves at each step; it is refused (\<open>None\<close>) as soon
  as it names a goroutine that cannot move.\<close>

fun lookupIP_exec :: "env \<Rightarrow> goroutine list \<Rightarrow> tstate \<Rightarrow> tstate option" where
  "lookupIP_exec e [] s = Some s"
| "lookupIP_exec e (g # gs) s =
     (case lookupIP_step e g s of None \<Rightarrow> None | Some s' \<Rightarrow> lookupIP_exec e gs s')"

section \<open>The whole run: \<^verbatim>\<open>main\<close>\<close>

text \<open>
  \<^verbatim>\<open>kong.Parse\<close> belongs to a library: it either ends the process itself (on a parsing
  error, or after printing the usage for the help flag), with an exit status that the
  library chooses and \<^verbatim>\<open>main\<close> never sets, or it fills \<^verbatim>\<open>CLI\<close> and returns. Its outcome,
  with that status, is an input of the model, and what it prints is left out.
\<close>

datatype kong_outcome = KongStopped nat | KongParsed CLI

text \<open>A forward DNS query issued by the program, kept in a log beside it.\<close>

datatype query = QueryHost string | QueryIP string

text \<open>
  The state of the process: the tasks with their goroutines, the result channel and the
  outer wait group, the slice \<^verbatim>\<open>results\<close> filled by the collector, the channel \<^verbatim>\<open>done\<close>,
  the run-wide context, the signal goroutine, the two counters of the progress line, what
  has been written to standard output, the records handed to \<^verbatim>\<open>printResult\<close> (a log),
  the forward DNS queries made (a log), and the exit status once the process has ended.
\<close>

record state =
  tasks :: "task list"
  chan :: "Result list"
  chanClosed :: bool
  wg :: int
  results :: "Result list"
  doneClosed :: bool
  cancelled :: bool
  sigHandled :: bool
  totalIPs :: nat
  processed :: nat
  out :: "string list"
  rendered :: "Result list"
  queries :: "query list"
  exit_code :: "nat option"

definition start :: state where
  "start = \<lparr>tasks = [], chan = [], chanClosed = False, wg = 0, results = [],
            doneClosed = False, cancelled = False, sigHandled = False, totalIPs = 0,
            processed = 0, out = [], rendered = [], queries = [], exit_code = None\<rparr>"

definition validateInput :: "env \<Rightarrow> string \<Rightarrow> query list \<times> string option" where
  "validateInput e input =
     (if ParseIP e input \<noteq> None then ([], None)
      else (case LookupHost e input of
              Inl err \<Rightarrow> ([QueryHost input], Some (''invalid domain or IP address: '' @ err))
            | Inr hosts \<Rightarrow> ([QueryHost input], None)))"

text \<open>The part of \<^verbatim>\<open>main\<close> that fills \<^verbatim>\<open>ips\<close>: the literal itself, or \<^verbatim>\<open>net.LookupIP\<close>.\<close>

definition resolve :: "env \<Rightarrow> string \<Rightarrow> query list \<times> (string + net_IP list)" where
  "resolve e target =
     (case ParseIP e target of
        Some ip \<Rightarrow> ([], Inr ([] @ [ip]))
      | None \<Rightarrow> ([QueryIP target], LookupIP e target))"

text \<open>The test of the launch loop on one address.\<close>

definition keeps :: "CLI \<Rightarrow> net_IP \<Rightarrow> bool" where
  "keeps c ip =
     (let isIPv6 = (To4 ip = None)
      in (IPv4 c \<and> \<not> isIPv6) \<or> (IPv6 c \<and> isIPv6) \<or> (\<not> IPv4 c \<and> \<not> IPv6 c))"

text \<open>The launch loop: \<^verbatim>\<open>totalIPs++\<close>, \<^verbatim>\<open>wg.Add(1)\<close> and \<^verbatim>\<open>go lookupIP(...)\<close> for each
  address that passes the test.\<close>

fun launch :: "env \<Rightarrow> CLI \<Rightarrow> net_IP list \<Rightarrow> state \<Rightarrow> state" where
  "launch e c [] s = s"
| "launch e c (ip # ips) s =
     (if keeps c ip
      then launch e c ips
             (s\<lparr>totalIPs := totalIPs s + 1, wg := wg s + 1,
                tasks := tasks s @ [lookupIP_init (IPString e ip) (To4 ip = None)]\<rparr>)
      else launch e c ips s)"

text \<open>
  \<^verbatim>\<open>main\<close> up to the moment the coordinator enters its loop. A fatal error leaves a state
  with an exit status, in which nothing moves any more.
\<close>

definition main :: "env \<Rightarrow> kong_outcome \<Rightarrow> state" where
  "main e k =
     (case k of
        KongStopped status \<Rightarrow> start\<lparr>exit_code := Some status\<rparr>
      | KongParsed c \<Rightarrow>
          (case validateInput e (Target c) of
             (qs, Some err) \<Rightarrow>
               start\<lparr>queries := qs,
                     out := [red (colors e) ''Error'' @ '': '' @ red (colors e) err @ nl],
                     exit_code := Some 1\<rparr>
           | (qs, None) \<Rightarrow>
               (case resolve e (Target c) of
                  (qs', Inl err) \<Rightarrow>
                    start\<lparr>queries := qs @ qs',
                          out := [red (colors e) ''Error looking up IP for domain'' @ '': ''
                                  @ red (colors e) err @ nl],
                          exit_code := Some 1\<rparr>
                | (qs', Inr ips) \<Rightarrow>
                    (let s = launch e c ips (start\<lparr>queries := qs @ qs'\<rparr>)
                     in s\<lparr>out := out s @ [yellow (colors e) ''Checking records... Please wait'']\<rparr>))))"

text \<open>The verb \<^verbatim>\<open>%d\<close> on a count.\<close>

fun dec :: "nat \<Rightarrow> string" where
  "dec n = (if n < 10 then [''0123456789'' ! n]
            else dec (n div 10) @ [''0123456789'' ! (n mod 10)])"

declare dec.simps [simp del]

definition clearLine :: string where
  "clearLine = [CHR 0x0D] @ replicate 60 CHR '' '' @ [CHR 0x0D]"

definition progressLine :: "nat \<Rightarrow> nat \<Rightarrow> string" where
  "progressLine p t = [CHR 0x0D] @ ''Checking records... '' @ dec p @ ''/'' @ dec t @ '' completed''"

text \<open>
  The steps of the concurrent phase.
  \<^item> \<open>TaskStep i g\<close>: goroutine \<open>g\<close> of the \<open>i\<close>-th task makes its next step.
  \<^item> \<open>CloseResultChan\<close>: the goroutine that waits on the outer wait group and closes the
    result channel.
  \<^item> \<open>Collect\<close>: the collector receives one record and appends it to \<^verbatim>\<open>results\<close>;
    \<open>CloseDone\<close>: its \<^verbatim>\<open>range\<close> ends on the closed, drained channel and it closes \<^verbatim>\<open>done\<close>.
  \<^item> \<open>Interrupt\<close>: a signal arrives and the signal goroutine prints its line and cancels
    the context.
  \<^item> \<open>Select c\<close>: the coordinator's \<^verbatim>\<open>select\<close> takes case \<open>c\<close>; a case can be taken when its
    channel is ready, and when several are ready any of them can be taken. The ticker
    can have fired at any moment.
  Once \<^verbatim>\<open>main\<close> has returned or the process has exited, nothing moves.
\<close>

datatype select_case = CtxDone | DoneClosed | Tick

datatype action =
  TaskStep nat goroutine
| CloseResultChan
| Collect
| CloseDone
| Interrupt
| Select select_case

definition select_step :: "env \<Rightarrow> select_case \<Rightarrow> state \<Rightarrow> state option" where
  "select_step e c s =
     (case c of
        CtxDone \<Rightarrow>
          if cancelled s
          then Some (s\<lparr>out := out s @ [nl @ ''Operation cancelled'' @ nl], exit_code := Some 0\<rparr>)
          else None
      | DoneClosed \<Rightarrow>
          if doneClosed s
          then Some (s\<lparr>out := out s @ [clearLine] @ concat (map (printResult (colors e)) (results s)),
                       rendered := rendered s @ results s,
                       exit_code := Some 0\<rparr>)
          else None
      | Tick \<Rightarrow>
          Some (s\<lparr>processed := length (results s),
                  out := out s @ [progressLine (length (results s)) (totalIPs s)]\<rparr>))"

definition step :: "env \<Rightarrow> action \<Rightarrow> state \<Rightarrow> state option" where
  "step e a s =
     (if exit_code s \<noteq> None then None
      else (case a of
        TaskStep i g \<Rightarrow>
          if i < length (tasks s)
          then (case lookupIP_step e g (tasks s ! i, chan s, wg s) of
                  None \<Rightarrow> None
                | Some (t', ch', w') \<Rightarrow> Some (s\<lparr>tasks := (tasks s)[i := t'], chan := ch', wg := w'\<rparr>))
          else None
      | CloseResultChan \<Rightarrow>
          if wg s = 0 \<and> \<not> chanClosed s then Some (s\<lparr>chanClosed := True\<rparr>) else None
      | Collect \<Rightarrow>
          (case chan s of
             [] \<Rightarrow> None
           | r # rest \<Rightarrow> Some (s\<lparr>chan := rest, results := results s @ [r]\<rparr>))
      | CloseDone \<Rightarrow>
          if chanClosed s \<and> chan s = [] \<and> \<not> doneClosed s then Some (s\<lparr>doneClosed := True\<rparr>)
          else None
      | Interrupt \<Rightarrow>
          if sigHandled s then None
          else Some (s\<lparr>sigHandled := True, cancelled := True,
                       out := out s @ [nl @ ''Interrupt received, shutting down...'' @ nl]\<rparr>)
      | Select c \<Rightarrow> select_step e c s))"

fun exec :: "env \<Rightarrow> action list \<Rightarrow> state \<Rightarrow> state option" where
  "exec e [] s = Some s"
| "exec e (a # as) s = (case step e a s of None \<Rightarrow> None | Some s' \<Rightarrow> exec e as s')"

section \<open>Concrete environments\<close>

text \<open>
  Small worlds on which the theorems below are exercised. \<open>mapped1234\<close> is the 16-byte
  form of \<^verbatim>\<open>1.2.3.4\<close> (which is also that of \<^verbatim>\<open>::ffff:1.2.3.4\<close>), the form in which
  \<^verbatim>\<open>net.ParseIP\<close> hands back an IPv4 literal; \<open>v6addr\<close> is \<^verbatim>\<open>2001:db8::1\<close>.
\<close>

definition plain :: palette where
  "plain = \<lparr>cyan = (\<lambda>x. x), yellow = (\<lambda>x. x), green = (\<lambda>x. x), red = (\<lambda>x. x),
            magenta = (\<lambda>x. x)\<rparr>"

definition mapped1234 :: net_IP where
  "mapped1234 = [0, 0, 0, 0, 0, 0, 0, 0, 0, 0, 0xff, 0xff, 1, 2, 3, 4]"

definition v6addr :: net_IP where
  "v6addr = [0x20, 0x01, 0x0d, 0xb8, 0, 0, 0, 0, 0, 0, 0, 0, 0, 0, 0, 1]"

definition showIP :: "net_IP \<Rightarrow> string" where
  "showIP ip = (if ip = v6addr then ''2001:db8::1'' else ''1.2.3.4'')"

text \<open>Every lookup fails; only the literals \<^verbatim>\<open>1.2.3.4\<close> and \<^verbatim>\<open>::ffff:1.2.3.4\<close> parse.\<close>

definition downEnv :: env where
  "downEnv =
     \<lparr>ParseIP = (\<lambda>x. if x = ''1.2.3.4'' \<or> x = ''::ffff:1.2.3.4'' then Some mapped1234 else None),
      IPString = showIP,
      LookupHost = (\<lambda>x. Inl ''no such host''),
      LookupIP = (\<lambda>x. Inl ''no such host''),
      LookupAddr = (\<lambda>x. Inl ''no such host''),
      httpGet = (\<lambda>x. DoError ''timeout''),
      decodeIPInfo = (\<lambda>x. Inl ''EOF''),
      unmarshalILineInfo = (\<lambda>x. Inl ''unexpected end of JSON input''),
      colors = plain\<rparr>"

text \<open>
  Every lookup answers: the host \<^verbatim>\<open>example.com\<close> has one IPv4 and one IPv6 address, the
  body of an HTTP answer is stood for by the requested URL, and the network-info service
  answers with the status \<open>st\<close> and the servers \<open>srv\<close>.
\<close>

definition upEnv :: "string \<Rightarrow> string list \<Rightarrow> env" where
  "upEnv st srv =
     \<lparr>ParseIP = (\<lambda>x. if x = ''1.2.3.4'' \<or> x = ''::ffff:1.2.3.4'' then Some mapped1234 else None),
      IPString = showIP,
      LookupHost = (\<lambda>x. if x = ''example.com'' then Inr [''1.2.3.4'', ''2001:db8::1'']
                         else Inl ''no such host''),
      LookupIP = (\<lambda>x. if x = ''example.com'' then Inr [mapped1234, v6addr]
                       else Inl ''no such host''),
      LookupAddr = (\<lambda>x. Inr [''host.example.com'']),
      httpGet = (\<lambda>x. Body x),
      decodeIPInfo = (\<lambda>x. Inr \<lparr>InfoIP = ''1.2.3.4'', Country = ''US'',
                                Org = ''AS1234 Example Org''\<rparr>),
      unmarshalILineInfo = (\<lambda>x. Inr \<lparr>Status = st,
                                      Response = map (\<lambda>n. \<lparr>ServerName = n\<rparr>) srv\<rparr>),
      colors = plain\<rparr>"

definition cli :: "bool \<Rightarrow> bool \<Rightarrow> string \<Rightarrow> CLI" where
  "cli v4 v6 target =
     \<lparr>IPv4 = v4, IPv6 = v6, Timeout = 5000000000, ILineTimeout = 10000000000,
      Target = target\<rparr>"

section \<open>Invariant and measure of a task\<close>

text \<open>
  \<open>pending p\<close> is what a goroutine at \<open>p\<close> still owes to \<^verbatim>\<open>wgInternal\<close>, and \<open>joined t\<close>
  says that the three goroutines of \<open>t\<close> are through. \<open>task_inv w0\<close> ties the counter to
  the program counters and says where the function body stands: it passes the barrier
  only when the three are through; before the send the channel is empty and the outer
  counter is \<open>w0\<close>; from the send on the channel holds the record.
\<close>

definition pending :: "gpc \<Rightarrow> int" where
  "pending p = (if p = Finished then 0 else 1)"

definition joined :: "task \<Rightarrow> bool" where
  "joined t = (ptr_pc t = Finished \<and> info_pc t = Finished \<and> iline_pc t = Finished)"

definition task_inv :: "int \<Rightarrow> tstate \<Rightarrow> bool" where
  "task_inv w0 s =
     (case s of (t, ch, w) \<Rightarrow>
        wgInternal t = pending (ptr_pc t) + pending (info_pc t) + pending (iline_pc t)
      \<and> (ptr_pc t = Start \<or> ptr_pc t = Finished)
      \<and> (body_pc t \<noteq> AtWait \<longrightarrow> joined t)
      \<and> (body_pc t = AtWait \<or> body_pc t = AtSend \<longrightarrow> ch = [] \<and> w = w0)
      \<and> (body_pc t = AtDone \<longrightarrow> ch = [result t] \<and> w = w0)
      \<and> (body_pc t = Returned \<longrightarrow> ch = [result t] \<and> w = w0 - 1))"

text \<open>The number of steps a goroutine, and so a task, can still make at most.\<close>

definition steps_left :: "gpc \<Rightarrow> nat" where
  "steps_left p =
     (case p of Start \<Rightarrow> 3 | Checked b err \<Rightarrow> 2 | Formatted m \<Rightarrow> 1 | Finished \<Rightarrow> 0)"

definition body_left :: "bpc \<Rightarrow> nat" where
  "body_left p = (case p of AtWait \<Rightarrow> 3 | AtSend \<Rightarrow> 2 | AtDone \<Rightarrow> 1 | Returned \<Rightarrow> 0)"

definition remaining :: "task \<Rightarrow> nat" where
  "remaining t =
     (if ptr_pc t = Finished then 0 else 1) + steps_left (info_pc t) + steps_left (iline_pc t)
     + body_left (body_pc t)"


section \<open>A concrete run\<close>

text \<open>
  The record of \<^verbatim>\<open>1.2.3.4\<close> when its three sub-lookups fail one after the other in the
  order PTR, IP-info, I-line, and the schedule that runs the only task of a run to its
  end and lets the collector finish.
\<close>

definition failedRecord :: Result where
  "failedRecord = \<lparr>IP = ''1.2.3.4'', PTR = [], IPInfo = None, ILine = [], IsIPv6 = False,
      Error = Some ''error looking up PTR records: no such host; error fetching IP info: timeout; error fetching I-line info: timeout''\<rparr>"

text \<open>
  The record of an address when its three sub-lookups succeed against \<open>upEnv\<close> with two
  servers, and the schedule that runs the \<open>i\<close>-th task to its end in that case.
\<close>

definition okRecord :: "string \<Rightarrow> bool \<Rightarrow> Result" where
  "okRecord a v6 =
     \<lparr>IP = a, PTR = [''host.example.com''],
      IPInfo = Some \<lparr>InfoIP = ''1.2.3.4'', Country = ''US'', Org = ''AS1234 Example Org''\<rparr>,
      ILine = [''irc1.example.net'', ''irc2.example.net''], IsIPv6 = v6, Error = None\<rparr>"

definition runTask :: "nat \<Rightarrow> action list" where
  "runTask i = [TaskStep i GoPTR, TaskStep i GoInfo, TaskStep i GoILine,
                TaskStep i GoBody, TaskStep i GoBody, TaskStep i GoBody]"

definition oneTask :: "action list" where
  "oneTask = [TaskStep 0 GoPTR, TaskStep 0 GoInfo, TaskStep 0 GoInfo, TaskStep 0 GoInfo,
              TaskStep 0 GoILine, TaskStep 0 GoILine, TaskStep 0 GoILine,
              TaskStep 0 GoBody, TaskStep 0 GoBody, TaskStep 0 GoBody,
              CloseResultChan, Collect, CloseDone]"

section \<open>The idle run\<close>

text \<open>
  What standard output can hold when no task was launched, and the states of such a run.
\<close>

definition idle_lines :: "env \<Rightarrow> string set" where
  "idle_lines e =
     {yellow (colors e) ''Checking records... Please wait'', progressLine 0 0, clearLine,
      nl @ ''Interrupt received, shutting down...'' @ nl, nl @ ''Operation cancelled'' @ nl}"

definition idle :: "env \<Rightarrow> state \<Rightarrow> bool" where
  "idle e s =
     (tasks s = [] \<and> chan s = [] \<and> results s = [] \<and> rendered s = [] \<and> totalIPs s = 0
      \<and> wg s = 0 \<and> (doneClosed s \<longrightarrow> chanClosed s) \<and> set (out s) \<subseteq> idle_lines e)"

section \<open>The family of the records\<close>

text \<open>
  \<open>family_inv e kept\<close>: the tasks are, position by position, those of the addresses \<open>kept\<close>,
  each with the text and the family of its address, and every record in the channel, in
  \<^verbatim>\<open>results\<close> or rendered carries the text and the family of one of these addresses.
\<close>

definition family_inv :: "env \<Rightarrow> net_IP list \<Rightarrow> state \<Rightarrow> bool" where
  "family_inv e kept s =
     (map (\<lambda>t. (addr t, IP (result t), IsIPv6 (result t))) (tasks s)
        = map (\<lambda>ip. (IPString e ip, IPString e ip, To4 ip = None)) kept
      \<and> (\<forall>r \<in> set (chan s) \<union> set (results s) \<union> set (rendered s).
            \<exists>ip \<in> set kept. IP r = IPString e ip \<and> IsIPv6 r = (To4 ip = None)))"

section \<open>The launch loop and the address-family filter\<close>

lemma launch_unfold:
  "launch e c ips s =
     s\<lparr>totalIPs := totalIPs s + length (filter (keeps c) ips),
       wg := wg s + int (length (filter (keeps c) ips)),
       tasks := tasks s @ map (\<lambda>ip. lookupIP_init (IPString e ip) (To4 ip = None))
                              (filter (keeps c) ips)\<rparr>"
  by (induction ips arbitrary: s) simp_all

lemma keeps_iff:
  "keeps c ip \<longleftrightarrow>
     (IPv4 c \<and> To4 ip \<noteq> None) \<or> (IPv6 c \<and> To4 ip = None) \<or> (\<not> IPv4 c \<and> \<not> IPv6 c)"
  by (simp add: keeps_def)

lemma main_launched:
  assumes "validateInput e (Target c) = (qs, None)"
    and "resolve e (Target c) = (qs', Inr ips)"
  shows "main e (KongParsed c) =
           (launch e c ips (start\<lparr>queries := qs @ qs'\<rparr>))
             \<lparr>out := [yellow (colors e) ''Checking records... Please wait'']\<rparr>"
  using assms by (simp add: main_def Let_def launch_unfold start_def)

lemmas world_defs = validateInput_def resolve_def downEnv_def upEnv_def cli_def To4_def
  mapped1234_def v6addr_def showIP_def plain_def

text \<open>
  Claim C5. Whatever the two family flags, an address that was resolved is kept exactly
  when the IPv4 flag is set and the address is IPv4, or the IPv6 flag is set and the
  address is IPv6, or neither flag is set; the tasks that \<^verbatim>\<open>main\<close> launches are those of
  the kept addresses, in order, one each, and the two counters count them.
\<close>

theorem family_filter:
  assumes "validateInput e (Target c) = (qs, None)"
    and "resolve e (Target c) = (qs', Inr ips)"
  shows "tasks (main e (KongParsed c)) =
           map (\<lambda>ip. lookupIP_init (IPString e ip) (To4 ip = None))
               (filter (\<lambda>ip. (IPv4 c \<and> To4 ip \<noteq> None) \<or> (IPv6 c \<and> To4 ip = None)
                               \<or> (\<not> IPv4 c \<and> \<not> IPv6 c)) ips)
         \<and> totalIPs (main e (KongParsed c)) = length (tasks (main e (KongParsed c)))
         \<and> wg (main e (KongParsed c)) = int (length (tasks (main e (KongParsed c))))"
proof -
  have k: "keeps c = (\<lambda>ip. (IPv4 c \<and> To4 ip \<noteq> None) \<or> (IPv6 c \<and> To4 ip = None)
                               \<or> (\<not> IPv4 c \<and> \<not> IPv6 c))"
    by (rule ext) (simp add: keeps_iff)
  show ?thesis
    unfolding main_launched [OF assms] launch_unfold k [symmetric]
    by (simp add: start_def)
qed

theorem family_filter_witness:
  "tasks (main (upEnv ''SUCCESS'' []) (KongParsed (cli True False ''example.com''))) =
     [lookupIP_init ''1.2.3.4'' False]
   \<and> tasks (main (upEnv ''SUCCESS'' []) (KongParsed (cli False True ''example.com''))) =
     [lookupIP_init ''2001:db8::1'' True]
   \<and> tasks (main (upEnv ''SUCCESS'' []) (KongParsed (cli False False ''example.com''))) =
     [lookupIP_init ''1.2.3.4'' False, lookupIP_init ''2001:db8::1'' True]"
proof -
  have v: "validateInput (upEnv ''SUCCESS'' []) (Target (cli a b ''example.com''))
             = ([QueryHost ''example.com''], None)" for a b
    by (simp add: world_defs)
  have r: "resolve (upEnv ''SUCCESS'' []) (Target (cli a b ''example.com''))
             = ([QueryIP ''example.com''], Inr [mapped1234, v6addr])" for a b
    by (simp add: world_defs)
  show ?thesis
    using family_filter [OF v r, of True False] family_filter [OF v r, of False True]
      family_filter [OF v r, of False False]
    by (simp add: world_defs)
qed

section \<open>Facts about one task\<close>

lemmas task_step_defs = lookupIP_step_def ptr_step_def info_step_def iline_step_def body_step_def

lemmas fetch_defs = getIPInfo_def getILineInfo_def errText_def resultChanCap_def lookupIP_init_def

lemma ptr_step_Some:
  assumes "ptr_step e t = Some t'"
  shows "ptr_pc t = Start \<and> ptr_pc t' = Finished \<and> info_pc t' = info_pc t
         \<and> iline_pc t' = iline_pc t \<and> body_pc t' = body_pc t
         \<and> wgInternal t' = wgInternal t - 1
         \<and> addr t' = addr t \<and> IP (result t') = IP (result t)
         \<and> IsIPv6 (result t') = IsIPv6 (result t) \<and> ILine (result t') = ILine (result t)
         \<and> (Error (result t) \<noteq> None \<longrightarrow> Error (result t') \<noteq> None)"
  using assms
  by (cases "ptr_pc t"; cases "LookupAddr e (addr t)") (auto simp: ptr_step_def)

lemma info_step_Some:
  assumes "info_step e t = Some t'"
  shows "info_pc t \<noteq> Finished \<and> ptr_pc t' = ptr_pc t \<and> iline_pc t' = iline_pc t
         \<and> body_pc t' = body_pc t
         \<and> ((info_pc t' \<noteq> Finished \<and> steps_left (info_pc t') < steps_left (info_pc t)
                \<and> wgInternal t' = wgInternal t \<and> result t' = result t)
            \<or> (info_pc t' = Finished \<and> wgInternal t' = wgInternal t - 1))
         \<and> addr t' = addr t \<and> IP (result t') = IP (result t)
         \<and> IsIPv6 (result t') = IsIPv6 (result t) \<and> ILine (result t') = ILine (result t)
         \<and> (Error (result t) \<noteq> None \<longrightarrow> Error (result t') \<noteq> None)"
  using assms
  by (cases "info_pc t"; cases "getIPInfo e (addr t)")
     (auto simp: info_step_def steps_left_def split: if_splits)

lemma iline_step_Some:
  assumes "iline_step e t = Some t'"
  shows "iline_pc t \<noteq> Finished \<and> ptr_pc t' = ptr_pc t \<and> info_pc t' = info_pc t
         \<and> body_pc t' = body_pc t
         \<and> ((iline_pc t' \<noteq> Finished \<and> steps_left (iline_pc t') < steps_left (iline_pc t)
                \<and> wgInternal t' = wgInternal t \<and> result t' = result t)
            \<or> (iline_pc t' = Finished \<and> wgInternal t' = wgInternal t - 1))
         \<and> addr t' = addr t \<and> IP (result t') = IP (result t)
         \<and> IsIPv6 (result t') = IsIPv6 (result t)
         \<and> (Error (result t) \<noteq> None \<longrightarrow> Error (result t') \<noteq> None)
         \<and> (isl (getILineInfo e (addr t)) \<longrightarrow>
               ILine (result t') = ILine (result t)
               \<and> (iline_pc t' = Finished \<longrightarrow> Error (result t') \<noteq> None))"
  using assms
  by (cases "iline_pc t"; cases "getILineInfo e (addr t)")
     (auto simp: iline_step_def steps_left_def split: if_splits)

lemma body_step_Some:
  assumes "body_step (t, ch, w) = Some (t', ch', w')"
  shows "ptr_pc t' = ptr_pc t \<and> info_pc t' = info_pc t \<and> iline_pc t' = iline_pc t
         \<and> wgInternal t' = wgInternal t \<and> result t' = result t \<and> addr t' = addr t
         \<and> ((body_pc t = AtWait \<and> wgInternal t = 0 \<and> body_pc t' = AtSend \<and> ch' = ch \<and> w' = w)
            \<or> (body_pc t = AtSend \<and> body_pc t' = AtDone \<and> ch' = ch @ [result t] \<and> w' = w)
            \<or> (body_pc t = AtDone \<and> body_pc t' = Returned \<and> ch' = ch \<and> w' = w - 1))"
  using assms by (cases "body_pc t") (auto simp: body_step_def split: if_splits)

lemma lookupIP_step_cases:
  assumes "lookupIP_step e g (t, ch, w) = Some (t', ch', w')"
  shows "(g = GoPTR \<and> ptr_step e t = Some t' \<and> ch' = ch \<and> w' = w)
         \<or> (g = GoInfo \<and> info_step e t = Some t' \<and> ch' = ch \<and> w' = w)
         \<or> (g = GoILine \<and> iline_step e t = Some t' \<and> ch' = ch \<and> w' = w)
         \<or> (g = GoBody \<and> body_step (t, ch, w) = Some (t', ch', w'))"
  using assms by (cases g) (auto simp: lookupIP_step_def)

lemma lookupIP_step_identity:
  assumes "lookupIP_step e g (t, ch, w) = Some (t', ch', w')"
  shows "addr t' = addr t \<and> IP (result t') = IP (result t)
         \<and> IsIPv6 (result t') = IsIPv6 (result t)"
  using lookupIP_step_cases [OF assms] ptr_step_Some [of e t t'] info_step_Some [of e t t']
    iline_step_Some [of e t t'] body_step_Some [of t ch w t' ch' w']
  by auto

lemma lookupIP_step_chan:
  assumes "lookupIP_step e g (t, ch, w) = Some (t', ch', w')"
  shows "ch' = ch \<or> ch' = ch @ [result t]"
  using lookupIP_step_cases [OF assms] body_step_Some [of t ch w t' ch' w']
  by auto

lemma lookupIP_exec_identity:
  assumes "lookupIP_exec e sched (t, ch, w) = Some (t', ch', w')"
  shows "addr t' = addr t \<and> IP (result t') = IP (result t)
         \<and> IsIPv6 (result t') = IsIPv6 (result t)"
  using assms
proof (induction sched arbitrary: t ch w)
  case Nil
  then show ?case by simp
next
  case (Cons g gs)
  then obtain t1 ch1 w1 where s: "lookupIP_step e g (t, ch, w) = Some (t1, ch1, w1)"
    and r: "lookupIP_exec e gs (t1, ch1, w1) = Some (t', ch', w')"
    by (auto split: option.splits)
  from Cons.IH [OF r] lookupIP_step_identity [OF s] show ?case by simp
qed

lemma printResult_header:
  "hd (printResult c r) =
     cyan c ((if IsIPv6 r then ''AAAA'' else ''A'') @ '' Record'') @ '': '' @ yellow c (IP r) @ nl"
  by (simp add: printResult_def)


section \<open>A literal target\<close>

text \<open>
  Claim C6. When the target parses as an IP literal, validation accepts it and the
  address list is that one address, with no forward DNS query made; replacing the two
  forward resolvers \<^verbatim>\<open>net.LookupHost\<close> and \<^verbatim>\<open>net.LookupIP\<close> by any others changes nothing
  in the state in which \<^verbatim>\<open>main\<close> enters its loop.
\<close>

theorem literal_needs_no_dns:
  assumes "ParseIP e (Target c) = Some ip"
  shows "validateInput (e\<lparr>LookupHost := h, LookupIP := l\<rparr>) (Target c) = ([], None)
         \<and> resolve (e\<lparr>LookupHost := h, LookupIP := l\<rparr>) (Target c) = ([], Inr [ip])
         \<and> main (e\<lparr>LookupHost := h, LookupIP := l\<rparr>) (KongParsed c) = main e (KongParsed c)
         \<and> queries (main e (KongParsed c)) = []
         \<and> exit_code (main e (KongParsed c)) = None"
proof -
  let ?e = "e\<lparr>LookupHost := h, LookupIP := l\<rparr>"
  have v: "validateInput e' (Target c) = ([], None)" if "ParseIP e' = ParseIP e" for e'
    using assms that by (simp add: validateInput_def)
  have r: "resolve e' (Target c) = ([], Inr [ip])" if "ParseIP e' = ParseIP e" for e'
    using assms that by (simp add: resolve_def)
  have m: "main e' (KongParsed c) =
             (launch e' c [ip] (start\<lparr>queries := [] @ []\<rparr>))
               \<lparr>out := [yellow (colors e') ''Checking records... Please wait'']\<rparr>"
    if "ParseIP e' = ParseIP e" for e'
    by (rule main_launched [OF v [OF that] r [OF that]])
  have "main ?e (KongParsed c) = main e (KongParsed c)"
    by (simp add: m launch_unfold)
  moreover have "queries (main e (KongParsed c)) = []"
    and "exit_code (main e (KongParsed c)) = None"
    by (simp_all add: m launch_unfold start_def)
  ultimately show ?thesis
    using v [of ?e] r [of ?e] by simp
qed

theorem literal_needs_no_dns_witness:
  "resolve (downEnv\<lparr>LookupHost := (\<lambda>x. Inr [''9.9.9.9'']), LookupIP := (\<lambda>x. Inr [v6addr])\<rparr>)
       ''1.2.3.4'' = ([], Inr [mapped1234])
   \<and> resolve downEnv ''1.2.3.4'' = ([], Inr [mapped1234])
   \<and> tasks (main downEnv (KongParsed (cli False False ''1.2.3.4''))) = [lookupIP_init ''1.2.3.4'' False]
   \<and> queries (main downEnv (KongParsed (cli False False ''1.2.3.4''))) = []
   \<and> exit_code (main downEnv (KongParsed (cli False False ''1.2.3.4''))) = None"
proof -
  have p: "ParseIP downEnv (Target (cli False False ''1.2.3.4'')) = Some mapped1234"
    by (simp add: world_defs)
  have t: "tasks (main downEnv (KongParsed (cli False False ''1.2.3.4''))) = [lookupIP_init ''1.2.3.4'' False]"
    by (simp add: main_def world_defs keeps_def start_def)
  have r: "resolve downEnv ''1.2.3.4'' = ([], Inr [mapped1234])"
    by (simp add: world_defs)
  from literal_needs_no_dns [OF p, where h = "\<lambda>x. Inr [''9.9.9.9'']" and l = "\<lambda>x. Inr [v6addr]"] t r
  show ?thesis by (simp add: cli_def)
qed

section \<open>The network-info sub-lookup\<close>

lemma lookupIP_exec_invariant:
  assumes step: "\<And>g s s'. P s \<Longrightarrow> lookupIP_step e g s = Some s' \<Longrightarrow> P s'"
    and init: "P s"
    and run: "lookupIP_exec e sched s = Some s'"
  shows "P s'"
  using init run
proof (induction sched arbitrary: s)
  case Nil
  then show ?case by simp
next
  case (Cons g gs)
  from Cons.prems(2) obtain s1 where s1: "lookupIP_step e g s = Some s1"
    and r: "lookupIP_exec e gs s1 = Some s'"
    by (auto split: option.splits)
  from step [OF Cons.prems(1) s1] have "P s1" .
  from Cons.IH [OF this r] show ?case .
qed

lemma getILineInfo_status:
  assumes "httpGet e (''https://bot.ircnet.info/api/i-line?q='' @ ip) = Body body"
    and "unmarshalILineInfo e body = Inr info"
  shows "getILineInfo e ip =
           (if Status info \<noteq> ''SUCCESS'' then Inl ''failed to get I-line info''
            else Inr (appendServers [] (Response info)))"
  using assms by (simp add: getILineInfo_def)

lemma iline_failure_kept:
  assumes f: "getILineInfo e ip = Inl err"
    and p: "addr t = ip \<and> ILine (result t) = [] \<and> (iline_pc t = Finished \<longrightarrow> Error (result t) \<noteq> None)"
    and s: "lookupIP_step e g (t, ch, w) = Some (t', ch', w')"
  shows "addr t' = ip \<and> ILine (result t') = [] \<and> (iline_pc t' = Finished \<longrightarrow> Error (result t') \<noteq> None)"
proof -
  from f p have i: "isl (getILineInfo e (addr t))" by simp
  from lookupIP_step_cases [OF s]
  consider "ptr_step e t = Some t'" | "info_step e t = Some t'" | "iline_step e t = Some t'"
    | "body_step (t, ch, w) = Some (t', ch', w')" by auto
  then show ?thesis
  proof cases
    case 1 from ptr_step_Some [OF this] p show ?thesis by auto
  next
    case 2 from info_step_Some [OF this] p show ?thesis by auto
  next
    case 3 from iline_step_Some [OF this] p i show ?thesis by auto
  next
    case 4 from body_step_Some [OF this] p show ?thesis by auto
  qed
qed

lemma network_info_failure_run:
  assumes f: "getILineInfo e ip = Inl err"
    and run: "lookupIP_exec e sched (lookupIP_init ip v6, ch, w) = Some (t, ch', w')"
  shows "ILine (result t) = [] \<and> (iline_pc t = Finished \<longrightarrow> Error (result t) \<noteq> None)"
proof -
  let ?P = "\<lambda>s. addr (fst s) = ip \<and> ILine (result (fst s)) = []
                \<and> (iline_pc (fst s) = Finished \<longrightarrow> Error (result (fst s)) \<noteq> None)"
  have "?P (t, ch', w')"
  proof (rule lookupIP_exec_invariant [where P = ?P, OF _ _ run])
    show "?P (lookupIP_init ip v6, ch, w)" by (simp add: lookupIP_init_def)
  next
    fix g s s'
    assume "?P s" and "lookupIP_step e g s = Some s'"
    then show "?P s'"
      using iline_failure_kept [OF f, of "fst s" g "fst (snd s)" "snd (snd s)" "fst s'" "fst (snd s')" "snd (snd s')"]
      by simp
  qed
  then show ?thesis by simp
qed


section \<open>The barrier of a task\<close>

lemma pending_zero:
  "pending a + pending b + pending c = 0 \<longleftrightarrow> a = Finished \<and> b = Finished \<and> c = Finished"
  by (simp add: pending_def)

lemma task_inv_init: "task_inv w0 (lookupIP_init ip v6, [], w0)"
  by (simp add: task_inv_def lookupIP_init_def pending_def)

lemma task_inv_step:
  assumes inv: "task_inv w0 s" and st: "lookupIP_step e g s = Some s'"
  shows "task_inv w0 s'"
proof -
  obtain t ch w where s: "s = (t, ch, w)" by (cases s)
  obtain t' ch' w' where s': "s' = (t', ch', w')" by (cases s')
  show ?thesis
  proof (cases g)
    case GoPTR
    with st s s' have "ptr_step e t = Some t'" and "ch' = ch" and "w' = w"
      by (auto simp: lookupIP_step_def)
    with ptr_step_Some [of e t t'] inv s s' show ?thesis
      by (auto simp: task_inv_def pending_def joined_def)
  next
    case GoInfo
    with st s s' have "info_step e t = Some t'" and "ch' = ch" and "w' = w"
      by (auto simp: lookupIP_step_def)
    with info_step_Some [of e t t'] inv s s' show ?thesis
      by (auto simp: task_inv_def pending_def joined_def)
  next
    case GoILine
    with st s s' have "iline_step e t = Some t'" and "ch' = ch" and "w' = w"
      by (auto simp: lookupIP_step_def)
    with iline_step_Some [of e t t'] inv s s' show ?thesis
      by (auto simp: task_inv_def pending_def joined_def)
  next
    case GoBody
    with st s s' have "body_step (t, ch, w) = Some (t', ch', w')"
      by (simp add: lookupIP_step_def)
    with body_step_Some [of t ch w t' ch' w'] inv s s' show ?thesis
      by (auto simp: task_inv_def joined_def pending_zero)
  qed
qed

lemma remaining_step:
  assumes st: "lookupIP_step e g (t, ch, w) = Some (t', ch', w')"
  shows "remaining t' < remaining t"
proof (cases g)
  case GoPTR
  with st have "ptr_step e t = Some t'" by (auto simp: lookupIP_step_def)
  from ptr_step_Some [OF this] show ?thesis by (simp add: remaining_def)
next
  case GoInfo
  with st have "info_step e t = Some t'" by (auto simp: lookupIP_step_def)
  from info_step_Some [OF this] show ?thesis
    by (cases "info_pc t") (auto simp: remaining_def steps_left_def)
next
  case GoILine
  with st have "iline_step e t = Some t'" by (auto simp: lookupIP_step_def)
  from iline_step_Some [OF this] show ?thesis
    by (cases "iline_pc t") (auto simp: remaining_def steps_left_def)
next
  case GoBody
  with st have "body_step (t, ch, w) = Some (t', ch', w')" by (simp add: lookupIP_step_def)
  from body_step_Some [OF this] show ?thesis
    by (auto simp: remaining_def body_left_def)
qed

lemma remaining_exec:
  assumes "lookupIP_exec e sched (t, ch, w) = Some (t', ch', w')"
  shows "length sched + remaining t' \<le> remaining t"
  using assms
proof (induction sched arbitrary: t ch w)
  case Nil
  then show ?case by simp
next
  case (Cons g gs)
  then obtain t1 ch1 w1 where s: "lookupIP_step e g (t, ch, w) = Some (t1, ch1, w1)"
    and r: "lookupIP_exec e gs (t1, ch1, w1) = Some (t', ch', w')"
    by (auto split: option.splits)
  from Cons.IH [OF r] remaining_step [OF s] show ?case by simp
qed

lemma task_progress:
  assumes inv: "task_inv w0 (t, ch, w)" and nr: "body_pc t \<noteq> Returned"
  shows "\<exists>g. lookupIP_step e g (t, ch, w) \<noteq> None"
proof -
  consider "ptr_pc t = Start" | "ptr_pc t = Finished" "info_pc t \<noteq> Finished"
    | "ptr_pc t = Finished" "info_pc t = Finished" "iline_pc t \<noteq> Finished"
    | "ptr_pc t = Finished" "info_pc t = Finished" "iline_pc t = Finished"
    using inv by (auto simp: task_inv_def)
  then show ?thesis
  proof cases
    case 1
    then have "lookupIP_step e GoPTR (t, ch, w) \<noteq> None"
      by (simp add: lookupIP_step_def ptr_step_def)
    then show ?thesis ..
  next
    case 2
    then have "lookupIP_step e GoInfo (t, ch, w) \<noteq> None"
      by (simp add: lookupIP_step_def info_step_def split: gpc.splits sum.splits)
    then show ?thesis ..
  next
    case 3
    then have "lookupIP_step e GoILine (t, ch, w) \<noteq> None"
      by (simp add: lookupIP_step_def iline_step_def split: gpc.splits sum.splits)
    then show ?thesis ..
  next
    case 4
    with inv nr have "lookupIP_step e GoBody (t, ch, w) \<noteq> None"
      by (cases "body_pc t")
         (auto simp: lookupIP_step_def body_step_def task_inv_def pending_def resultChanCap_def)
    then show ?thesis ..
  qed
qed

text \<open>
  Claim C2. Take any address, any outcome of the three sub-lookups and any schedule of
  the task's goroutines, from the moment \<^verbatim>\<open>lookupIP\<close> is entered with a fresh channel. The
  channel never holds more than the one record of this task; the function body is past
  its barrier, and a record is in the channel, only when the PTR, the IP-info and the
  I-line goroutine have all finished; when the function has returned, exactly one record
  has been sent and the outer wait group has been decremented once; as long as it has
  not returned some goroutine can move; and no schedule is longer than ten steps. So
  every run ends, with exactly one record, sent after the three sub-lookups. (The send
  is on a channel with room; in the whole program the collector keeps making room.)
\<close>

theorem one_record_after_join:
  assumes "lookupIP_exec e sched (lookupIP_init ip v6, [], w0) = Some (t, ch, w)"
  shows "(ch = [] \<or> ch = [result t])
         \<and> (body_pc t \<noteq> AtWait \<or> ch \<noteq> [] \<longrightarrow>
               ptr_pc t = Finished \<and> info_pc t = Finished \<and> iline_pc t = Finished
               \<and> wgInternal t = 0)
         \<and> (body_pc t = Returned \<longrightarrow> ch = [result t] \<and> w = w0 - 1)
         \<and> (body_pc t \<noteq> Returned \<longrightarrow> (\<exists>g. lookupIP_step e g (t, ch, w) \<noteq> None))
         \<and> length sched \<le> 10"
proof -
  have inv: "task_inv w0 (t, ch, w)"
    by (rule lookupIP_exec_invariant [where P = "task_inv w0", OF task_inv_step task_inv_init assms])
  have 1: "ch = [] \<or> ch = [result t]"
    using inv by (cases "body_pc t") (auto simp: task_inv_def)
  have 2: "body_pc t \<noteq> AtWait \<or> ch \<noteq> [] \<longrightarrow>
             ptr_pc t = Finished \<and> info_pc t = Finished \<and> iline_pc t = Finished
             \<and> wgInternal t = 0"
    using inv by (cases "body_pc t") (auto simp: task_inv_def joined_def pending_def)
  have 3: "body_pc t = Returned \<longrightarrow> ch = [result t] \<and> w = w0 - 1"
    using inv by (auto simp: task_inv_def)
  have 4: "body_pc t \<noteq> Returned \<longrightarrow> (\<exists>g. lookupIP_step e g (t, ch, w) \<noteq> None)"
    using task_progress [OF inv] by blast
  have 5: "length sched \<le> 10"
    using remaining_exec [OF assms]
    by (simp add: remaining_def steps_left_def body_left_def lookupIP_init_def)
  from 1 2 3 4 5 show ?thesis by blast
qed

theorem one_record_after_join_witness:
  "map_option (\<lambda>s. (fst (snd s) = [result (fst s)], body_pc (fst s), joined (fst s), snd (snd s)))
     (lookupIP_exec downEnv [GoILine, GoPTR, GoInfo, GoInfo, GoInfo, GoILine, GoBody, GoBody, GoBody]
        (lookupIP_init ''1.2.3.4'' False, [], 1))
     = Some (True, Returned, True, 0)
   \<and> lookupIP_exec downEnv [GoILine, GoPTR, GoInfo, GoInfo, GoBody]
        (lookupIP_init ''1.2.3.4'' False, [], 1) = None
   \<and> lookupIP_exec downEnv [GoBody] (lookupIP_init ''1.2.3.4'' False, [], 1) = None"
proof -
  obtain t ch w where x:
    "lookupIP_exec downEnv [GoILine, GoPTR, GoInfo, GoInfo, GoInfo, GoILine, GoBody, GoBody, GoBody]
        (lookupIP_init ''1.2.3.4'' False, [], 1) = Some (t, ch, w)"
    and r: "body_pc t = Returned"
    by (simp add: task_step_defs fetch_defs downEnv_def)
  from one_record_after_join [OF x] r
  have "ch = [result t]" and "w = 0" and "joined t"
    by (simp_all add: joined_def)
  moreover have "lookupIP_exec downEnv [GoILine, GoPTR, GoInfo, GoInfo, GoBody]
        (lookupIP_init ''1.2.3.4'' False, [], 1) = None"
    by (simp add: task_step_defs fetch_defs downEnv_def)
  moreover have "lookupIP_exec downEnv [GoBody] (lookupIP_init ''1.2.3.4'' False, [], 1) = None"
    by (simp add: task_step_defs fetch_defs downEnv_def)
  ultimately show ?thesis using x r by simp
qed

section \<open>Aggregating the failures\<close>

text \<open>
  Claim C1, where the program departs from it. All three sub-lookups of \<^verbatim>\<open>1.2.3.4\<close> fail
  and the IP-info goroutine is through before the PTR goroutine runs. The PTR goroutine
  assigns its message without looking at the one already there, so the record that is
  sent names two failures only: nothing in its message is the IP-info fragment.
\<close>

theorem ptr_overwrites_earlier_failure:
  "map_option (\<lambda>s. fst (snd s))
     (lookupIP_exec downEnv [GoInfo, GoInfo, GoPTR, GoILine, GoILine, GoILine, GoBody, GoBody, GoBody]
        (lookupIP_init ''1.2.3.4'' False, [], 1))
   = Some [\<lparr>IP = ''1.2.3.4'', PTR = [], IPInfo = None, ILine = [], IsIPv6 = False,
            Error = Some ''error looking up PTR records: no such host; error fetching I-line info: timeout''\<rparr>]
   \<and> \<not> sublist ''error fetching IP info''
         ''error looking up PTR records: no such host; error fetching I-line info: timeout''"
proof -
  have "\<not> sublist ''error fetching IP info''
         ''error looking up PTR records: no such host; error fetching I-line info: timeout''"
    by code_simp
  then show ?thesis
    by (simp add: task_step_defs fetch_defs downEnv_def)
qed

text \<open>
  Claim C8, where the program departs from it. Reverse DNS answers and both HTTP fetches
  fail. The IP-info and the I-line goroutine each test \<^verbatim>\<open>result.Error\<close> while two goroutines
  have not yet reached the barrier (the log shows both reads at counter 2); each finds it
  \<^verbatim>\<open>nil\<close>, and the second assignment replaces the first: the record keeps one of the two
  failures.
\<close>

theorem unsynchronised_failure_field:
  "map_option (\<lambda>s. (Error (result (fst s)), PTR (result (fst s)), errorReads (fst s), body_pc (fst s)))
     (lookupIP_exec (downEnv\<lparr>LookupAddr := (\<lambda>x. Inr [''host.example.com''])\<rparr>)
        [GoPTR, GoInfo, GoILine, GoInfo, GoILine, GoBody, GoBody, GoBody]
        (lookupIP_init ''1.2.3.4'' False, [], 1))
   = Some (Some ''error fetching I-line info: timeout'', [''host.example.com''],
           [(GoInfo, 2), (GoILine, 2), (GoBody, 0)], Returned)"
  by (simp add: task_step_defs fetch_defs downEnv_def)

section \<open>The whole run\<close>

lemma exec_invariant:
  assumes step: "\<And>a s s'. P s \<Longrightarrow> step e a s = Some s' \<Longrightarrow> P s'"
    and init: "P s"
    and run: "exec e sched s = Some s'"
  shows "P s'"
  using init run
proof (induction sched arbitrary: s)
  case Nil
  then show ?case by simp
next
  case (Cons a as)
  from Cons.prems(2) obtain s1 where s1: "step e a s = Some s1"
    and r: "exec e as s1 = Some s'"
    by (auto split: option.splits)
  from step [OF Cons.prems(1) s1] have "P s1" .
  from Cons.IH [OF this r] show ?case .
qed


lemma select_step_Some:
  assumes "select_step e c s = Some s'"
  shows "(c = CtxDone \<and> cancelled s
            \<and> s' = s\<lparr>out := out s @ [nl @ ''Operation cancelled'' @ nl], exit_code := Some 0\<rparr>)
         \<or> (c = DoneClosed \<and> doneClosed s
            \<and> s' = s\<lparr>out := out s @ [clearLine] @ concat (map (printResult (colors e)) (results s)),
                      rendered := rendered s @ results s, exit_code := Some 0\<rparr>)
         \<or> (c = Tick
            \<and> s' = s\<lparr>processed := length (results s),
                      out := out s @ [progressLine (length (results s)) (totalIPs s)]\<rparr>)"
  using assms by (cases c) (auto simp: select_step_def split: if_splits)

lemma step_Some:
  assumes "step e a s = Some s'"
  shows "exit_code s = None
         \<and> ((\<exists>i g t' ch' w'. a = TaskStep i g \<and> i < length (tasks s)
                \<and> lookupIP_step e g (tasks s ! i, chan s, wg s) = Some (t', ch', w')
                \<and> s' = s\<lparr>tasks := (tasks s)[i := t'], chan := ch', wg := w'\<rparr>)
            \<or> (a = CloseResultChan \<and> wg s = 0 \<and> \<not> chanClosed s \<and> s' = s\<lparr>chanClosed := True\<rparr>)
            \<or> (\<exists>r rest. a = Collect \<and> chan s = r # rest
                \<and> s' = s\<lparr>chan := rest, results := results s @ [r]\<rparr>)
            \<or> (a = CloseDone \<and> chanClosed s \<and> chan s = [] \<and> \<not> doneClosed s
                \<and> s' = s\<lparr>doneClosed := True\<rparr>)
            \<or> (a = Interrupt \<and> \<not> sigHandled s
                \<and> s' = s\<lparr>sigHandled := True, cancelled := True,
                          out := out s @ [nl @ ''Interrupt received, shutting down...'' @ nl]\<rparr>)
            \<or> (\<exists>c. a = Select c \<and> select_step e c s = Some s'))"
  using assms
  by (cases a)
     (auto simp: step_def split: if_splits option.splits list.splits)

lemma step_exit_code:
  assumes "step e a s = Some s'"
  shows "exit_code s = None \<and> (exit_code s' = None \<or> exit_code s' = Some 0)"
proof (cases "\<exists>c. a = Select c")
  case True
  then obtain c where "a = Select c" ..
  with step_Some [OF assms] have "exit_code s = None" and "select_step e c s = Some s'"
    by auto
  with select_step_Some [of e c s s'] show ?thesis by auto
next
  case False
  with step_Some [OF assms] show ?thesis by auto
qed

lemma step_rendered:
  assumes "step e a s = Some s'"
    and "exit_code s = None \<longrightarrow> rendered s = []"
  shows "(exit_code s' = None \<longrightarrow> rendered s' = []) \<and> (rendered s' \<noteq> [] \<longrightarrow> doneClosed s')"
proof (cases "\<exists>c. a = Select c")
  case True
  then obtain c where "a = Select c" ..
  with step_Some [OF assms(1)] have "exit_code s = None" and "select_step e c s = Some s'"
    by auto
  with select_step_Some [of e c s s'] assms(2) show ?thesis by auto
next
  case False
  with step_Some [OF assms(1)] assms(2) show ?thesis by auto
qed

lemma main_fresh:
  "rendered (main e k) = [] \<and> results (main e k) = [] \<and> chan (main e k) = []
   \<and> \<not> doneClosed (main e k) \<and> \<not> chanClosed (main e k) \<and> \<not> cancelled (main e k)"
  by (simp add: main_def launch_unfold start_def Let_def
           split: kong_outcome.splits prod.splits option.splits sum.splits)




lemmas run_defs = step_def select_step_def main_def keeps_def start_def




text \<open>
  Claim C4 as stated fails. The interrupt arrives while the only task of the run has not
  started (the context is cancelled, \<^verbatim>\<open>done\<close> is open, nothing is collected); the task then
  runs to its end, the collector closes \<^verbatim>\<open>done\<close>, and the coordinator's \<^verbatim>\<open>select\<close>, with both
  the context and \<^verbatim>\<open>done\<close> ready, takes \<^verbatim>\<open>done\<close>: the record is rendered after the
  cancellation.
\<close>

theorem interrupt_in_flight_still_renders:
  "map_option (\<lambda>s. (cancelled s, doneClosed s, results s))
     (exec downEnv [Interrupt] (main downEnv (KongParsed (cli False False ''1.2.3.4''))))
     = Some (True, False, [])
   \<and> map_option (\<lambda>s. (cancelled s, exit_code s, rendered s))
     (exec downEnv (Interrupt # oneTask @ [Select DoneClosed])
        (main downEnv (KongParsed (cli False False ''1.2.3.4''))))
     = Some (True, Some 0, [failedRecord])"
  by (simp add: oneTask_def failedRecord_def run_defs task_step_defs fetch_defs world_defs)

text \<open>
  Claim C4, amended. In any state the process can reach: nothing has been rendered as
  long as the process has not ended, and nothing is ever rendered while \<^verbatim>\<open>done\<close> is open;
  when the \<^verbatim>\<open>select\<close> takes the cancellation case the context had been cancelled, the
  notice "Operation cancelled" is printed, the process ends with status 0 and no record
  has been rendered, whatever had been collected; that case can be taken as soon as the
  context is cancelled; and the completion case cannot be taken while \<^verbatim>\<open>done\<close> is open.
\<close>

theorem cancel_branch_renders_nothing:
  assumes "exec e sched (main e k) = Some s"
  shows "(exit_code s = None \<longrightarrow> rendered s = [])
         \<and> (rendered s \<noteq> [] \<longrightarrow> doneClosed s)
         \<and> (\<forall>s'. step e (Select CtxDone) s = Some s' \<longrightarrow>
               cancelled s \<and> rendered s' = [] \<and> exit_code s' = Some 0
               \<and> out s' = out s @ [nl @ ''Operation cancelled'' @ nl])
         \<and> (cancelled s \<and> exit_code s = None \<longrightarrow> step e (Select CtxDone) s \<noteq> None)
         \<and> (\<not> doneClosed s \<longrightarrow> step e (Select DoneClosed) s = None)"
proof -
  let ?P = "\<lambda>s. (exit_code s = None \<longrightarrow> rendered s = []) \<and> (rendered s \<noteq> [] \<longrightarrow> doneClosed s)"
  have P: "?P s"
  proof (rule exec_invariant [where P = ?P, OF _ _ assms])
    show "?P (main e k)" using main_fresh [of e k] by simp
  next
    fix a s1 s2 assume "?P s1" and "step e a s1 = Some s2"
    with step_rendered [of e a s1 s2] show "?P s2" by simp
  qed
  have c: "cancelled s \<and> rendered s' = [] \<and> exit_code s' = Some 0
           \<and> out s' = out s @ [nl @ ''Operation cancelled'' @ nl]"
    if "step e (Select CtxDone) s = Some s'" for s'
  proof -
    from step_Some [OF that] have n: "exit_code s = None"
      and "select_step e CtxDone s = Some s'" by auto
    with select_step_Some [of e CtxDone s s'] P show ?thesis by auto
  qed
  have d: "step e (Select CtxDone) s \<noteq> None" if "cancelled s \<and> exit_code s = None"
    using that by (simp add: step_def select_step_def)
  have f: "step e (Select DoneClosed) s = None" if "\<not> doneClosed s"
    using that by (simp add: step_def select_step_def)
  from P c d f show ?thesis by blast
qed

theorem cancel_branch_renders_nothing_witness:
  "map_option (\<lambda>s. (results s, rendered s, exit_code s, last (out s)))
     (exec downEnv (oneTask @ [Interrupt, Select CtxDone])
        (main downEnv (KongParsed (cli False False ''1.2.3.4''))))
   = Some ([failedRecord], [], Some 0, nl @ ''Operation cancelled'' @ nl)"
proof -
  obtain s where x: "exec downEnv (oneTask @ [Interrupt])
        (main downEnv (KongParsed (cli False False ''1.2.3.4''))) = Some s"
    and r: "results s = [failedRecord]" and c: "cancelled s" and n: "exit_code s = None"
    by (simp add: oneTask_def failedRecord_def run_defs task_step_defs fetch_defs world_defs)
  from cancel_branch_renders_nothing [OF x] c n
  obtain s' where y: "step downEnv (Select CtxDone) s = Some s'"
    and z: "rendered s' = [] \<and> exit_code s' = Some 0 \<and> out s' = out s @ [nl @ ''Operation cancelled'' @ nl]"
    by fastforce
  from step_Some [OF y] select_step_Some [of downEnv CtxDone s s'] have "results s' = results s"
    by auto
  moreover have "exec downEnv (oneTask @ [Interrupt, Select CtxDone])
        (main downEnv (KongParsed (cli False False ''1.2.3.4''))) = Some s'"
  proof -
    have a: "exec e (xs @ ys) s0 = (case exec e xs s0 of None \<Rightarrow> None | Some s1 \<Rightarrow> exec e ys s1)"
      for e xs ys s0
      by (induction xs arbitrary: s0) (auto split: option.splits)
    have "oneTask @ [Interrupt, Select CtxDone] = (oneTask @ [Interrupt]) @ [Select CtxDone]"
      by simp
    then show ?thesis using x y by (simp only: a) simp
  qed
  ultimately show ?thesis using z r by simp
qed

section \<open>A run with nothing to enrich\<close>

lemma idle_step:
  assumes i: "idle e s" and st: "step e a s = Some s'"
  shows "idle e s'"
proof (cases "\<exists>c. a = Select c")
  case True
  then obtain c where "a = Select c" ..
  with step_Some [OF st] have "select_step e c s = Some s'" by auto
  with select_step_Some [of e c s s'] i show ?thesis
    by (auto simp: idle_def idle_lines_def)
next
  case False
  with step_Some [OF st] i show ?thesis
    by (auto simp: idle_def idle_lines_def)
qed

text \<open>
  Claim C10. Let the target be accepted and resolved, and let the filter keep none of its
  addresses. Then no task is launched, and in any state the process can reach nothing
  has been rendered, the exit status is unset or 0, and standard output holds nothing but
  the waiting line, the progress line "0/0", the cleared line and, after an interrupt,
  its two notices; and from any such state in which the process has not ended, letting
  the result channel and \<^verbatim>\<open>done\<close> be closed and the \<^verbatim>\<open>select\<close> take \<^verbatim>\<open>done\<close> ends it with
  status 0, having printed only the cleared line more.
\<close>

theorem nothing_to_enrich:
  assumes v: "validateInput e (Target c) = (qs, None)"
    and r: "resolve e (Target c) = (qs', Inr ips)"
    and k: "filter (keeps c) ips = []"
    and x: "exec e sched (main e (KongParsed c)) = Some s"
  shows "tasks s = [] \<and> totalIPs s = 0 \<and> rendered s = []
         \<and> (exit_code s = None \<or> exit_code s = Some 0)
         \<and> set (out s) \<subseteq>
             {yellow (colors e) ''Checking records... Please wait'', progressLine 0 0, clearLine,
              nl @ ''Interrupt received, shutting down...'' @ nl, nl @ ''Operation cancelled'' @ nl}
         \<and> (exit_code s = None \<longrightarrow>
               map_option (\<lambda>s'. (exit_code s', rendered s', out s'))
                 (exec e ((if chanClosed s then [] else [CloseResultChan])
                          @ (if doneClosed s then [] else [CloseDone]) @ [Select DoneClosed]) s)
               = Some (Some 0, [], out s @ [clearLine]))"
proof -
  have m: "main e (KongParsed c) =
             start\<lparr>queries := qs @ qs',
                   out := [yellow (colors e) ''Checking records... Please wait'']\<rparr>"
    by (simp add: main_launched [OF v r] launch_unfold k start_def)
  have i: "idle e s"
  proof (rule exec_invariant [where P = "idle e", OF _ _ x])
    show "idle e (main e (KongParsed c))"
      by (simp add: m idle_def idle_lines_def start_def)
  next
    fix a s1 s2 assume "idle e s1" and "step e a s1 = Some s2"
    then show "idle e s2" by (rule idle_step)
  qed
  have n: "exit_code (main e (KongParsed c)) = None"
    by (simp add: m start_def)
  have e0: "exit_code s = None \<or> exit_code s = Some 0"
  proof (rule exec_invariant [where P = "\<lambda>s. exit_code s = None \<or> exit_code s = Some 0", OF _ _ x])
    show "exit_code (main e (KongParsed c)) = None \<or> exit_code (main e (KongParsed c)) = Some 0"
      using n by simp
  next
    fix a s1 s2 assume "step e a s1 = Some s2"
    from step_exit_code [OF this] show "exit_code s2 = None \<or> exit_code s2 = Some 0" by simp
  qed
  have f: "map_option (\<lambda>s'. (exit_code s', rendered s', out s'))
                 (exec e ((if chanClosed s then [] else [CloseResultChan])
                          @ (if doneClosed s then [] else [CloseDone]) @ [Select DoneClosed]) s)
               = Some (Some 0, [], out s @ [clearLine])"
    if "exit_code s = None"
    using that i by (auto simp: idle_def step_def select_step_def)
  from i e0 f show ?thesis
    by (simp add: idle_def idle_lines_def)
qed

theorem nothing_to_enrich_witness:
  "map_option (\<lambda>s. (tasks s, rendered s, exit_code s, out s))
     (exec downEnv [Select Tick, CloseResultChan, CloseDone, Select DoneClosed]
        (main downEnv (KongParsed (cli False True ''1.2.3.4''))))
   = Some ([], [], Some 0, [''Checking records... Please wait'', progressLine 0 0, clearLine])"
proof -
  let ?c = "cli False True ''1.2.3.4''"
  have v: "validateInput downEnv (Target ?c) = ([], None)"
    and r: "resolve downEnv (Target ?c) = ([], Inr [mapped1234])"
    and k: "filter (keeps ?c) [mapped1234] = []"
    by (simp_all add: world_defs keeps_def)
  obtain s where x: "exec downEnv [Select Tick] (main downEnv (KongParsed ?c)) = Some s"
    and o: "out s = [''Checking records... Please wait'', progressLine 0 0]"
    and n: "exit_code s = None" and cc: "\<not> chanClosed s" and dc: "\<not> doneClosed s"
    by (simp add: run_defs world_defs)
  have a: "exec e (b # bs) s0 = (case exec e [b] s0 of None \<Rightarrow> None | Some s1 \<Rightarrow> exec e bs s1)"
    for e b bs s0
    by (simp split: option.splits)
  from nothing_to_enrich [OF v r k x] n cc dc o
  have "tasks s = []" and "map_option (\<lambda>s'. (exit_code s', rendered s', out s'))
          (exec downEnv [CloseResultChan, CloseDone, Select DoneClosed] s)
        = Some (Some 0, [], [''Checking records... Please wait'', progressLine 0 0, clearLine])"
    by simp_all
  moreover have "tasks s' = tasks s"
    if "exec downEnv [CloseResultChan, CloseDone, Select DoneClosed] s = Some s'" for s'
    using that by (auto simp: step_def select_step_def split: if_splits option.splits)
  ultimately show ?thesis
    using x by (subst a) auto
qed

section \<open>The family of a record\<close>

lemma family_inv_step:
  assumes i: "family_inv e kept s" and st: "step e a s = Some s'"
  shows "family_inv e kept s'"
proof -
  let ?f = "\<lambda>t. (addr t, IP (result t), IsIPv6 (result t))"
  let ?g = "\<lambda>ip. (IPString e ip, IPString e ip, To4 ip = None)"
  define ok where "ok = (\<lambda>r :: Result. \<exists>ip \<in> set kept. IP r = IPString e ip \<and> IsIPv6 r = (To4 ip = None))"
  from i have m: "map ?f (tasks s) = map ?g kept"
    and rs: "\<forall>r \<in> set (chan s) \<union> set (results s) \<union> set (rendered s). ok r"
    unfolding family_inv_def ok_def by blast+
  from step_Some [OF st]
  consider (task) i g t' ch' w' where "a = TaskStep i g" "i < length (tasks s)"
      "lookupIP_step e g (tasks s ! i, chan s, wg s) = Some (t', ch', w')"
      "s' = s\<lparr>tasks := (tasks s)[i := t'], chan := ch', wg := w'\<rparr>"
    | (sel) c where "a = Select c" "select_step e c s = Some s'"
    | (collect) r rest where "chan s = r # rest" "s' = s\<lparr>chan := rest, results := results s @ [r]\<rparr>"
    | (flag) "tasks s' = tasks s" "chan s' = chan s" "results s' = results s" "rendered s' = rendered s"
    by fastforce
  then have "map ?f (tasks s') = map ?f (tasks s)
             \<and> (\<forall>r \<in> set (chan s') \<union> set (results s') \<union> set (rendered s'). ok r)"
  proof cases
    case task
    from lookupIP_step_identity [OF task(3)] have "?f t' = ?f (tasks s ! i)" by simp
    then have "(map ?f (tasks s))[i := ?f t'] = map ?f (tasks s)"
      using task(2) by (simp add: list_update_same_conv)
    moreover have "tasks s' = (tasks s)[i := t']" using task(4) by simp
    ultimately have m': "map ?f (tasks s') = map ?f (tasks s)"
      by (simp only: map_update)
    have "length (map ?f (tasks s)) = length (map ?g kept)" by (simp only: m)
    with task(2) have k: "i < length kept" by simp
    have "map ?f (tasks s) ! i = map ?g kept ! i" by (simp only: m)
    with k task(2) have "?f (tasks s ! i) = ?g (kept ! i)" by simp
    with k have ok: "ok (result (tasks s ! i))"
      unfolding ok_def by (intro bexI [of _ "kept ! i"]) simp_all
    from lookupIP_step_chan [OF task(3)] have "set ch' \<subseteq> set (chan s) \<union> {result (tasks s ! i)}"
      by auto
    moreover have "chan s' = ch'" "results s' = results s" "rendered s' = rendered s"
      using task(4) by simp_all
    ultimately have "\<forall>r \<in> set (chan s') \<union> set (results s') \<union> set (rendered s'). ok r"
      using ok rs by auto
    with m' show ?thesis by blast
  next
    case sel
    from select_step_Some [OF sel(2)]
    have "tasks s' = tasks s" "chan s' = chan s" "results s' = results s"
      "set (rendered s') \<subseteq> set (rendered s) \<union> set (results s)"
      by auto
    with rs show ?thesis by auto
  next
    case collect
    then have "tasks s' = tasks s" "set (chan s') \<union> set (results s') \<union> set (rendered s')
        = set (chan s) \<union> set (results s) \<union> set (rendered s)"
      by auto
    with rs show ?thesis by simp
  next
    case flag
    with rs show ?thesis by simp
  qed
  then show ?thesis unfolding family_inv_def ok_def by (simp only: m) blast
qed

lemma family_inv_main:
  assumes v: "validateInput e (Target c) = (qs, None)"
    and r: "resolve e (Target c) = (qs', Inr ips)"
  shows "family_inv e (filter (keeps c) ips) (main e (KongParsed c))"
  by (simp add: main_launched [OF v r] launch_unfold start_def family_inv_def
        lookupIP_init_def comp_def)

lemma family_inv_tasks:
  assumes "family_inv e kept s"
  shows "map (\<lambda>t. (IP (result t), IsIPv6 (result t))) (tasks s) =
           map (\<lambda>ip. (IPString e ip, To4 ip = None)) kept"
proof -
  let ?f = "\<lambda>t. (addr t, IP (result t), IsIPv6 (result t))"
  let ?g = "\<lambda>ip. (IPString e ip, IPString e ip, To4 ip = None)"
  from assms have m: "map ?f (tasks s) = map ?g kept"
    unfolding family_inv_def by (rule conjunct1)
  have "map (\<lambda>t. (IP (result t), IsIPv6 (result t))) (tasks s)
        = map (\<lambda>x. (fst (snd x), snd (snd x))) (map ?f (tasks s))"
    by (simp add: comp_def)
  also have "\<dots> = map (\<lambda>x. (fst (snd x), snd (snd x))) (map ?g kept)"
    by (simp only: m)
  also have "\<dots> = map (\<lambda>ip. (IPString e ip, To4 ip = None)) kept"
    by (simp add: comp_def)
  finally show ?thesis .
qed

lemma family_inv_record:
  assumes i: "family_inv e (filter q ips) s"
    and mem: "r \<in> set (chan s) \<union> set (results s) \<union> set (rendered s)"
  shows "\<exists>ip \<in> set ips.
            IP r = IPString e ip \<and> IsIPv6 r = (To4 ip = None)
          \<and> hd (printResult p r) =
              cyan p ((if To4 ip = None then ''AAAA'' else ''A'') @ '' Record'') @ '': ''
              @ yellow p (IPString e ip) @ nl"
proof -
  from i have "\<forall>r \<in> set (chan s) \<union> set (results s) \<union> set (rendered s).
                 \<exists>ip \<in> set (filter q ips). IP r = IPString e ip \<and> IsIPv6 r = (To4 ip = None)"
    unfolding family_inv_def by (rule conjunct2)
  from this mem
  have "\<exists>ip \<in> set (filter q ips). IP r = IPString e ip \<and> IsIPv6 r = (To4 ip = None)"
    by (rule bspec)
  then obtain ip where k: "ip \<in> set (filter q ips)" and a: "IP r = IPString e ip"
    and b: "IsIPv6 r = (To4 ip = None)"
    by (elim bexE conjE)
  from k have "ip \<in> set ips" by simp
  moreover have "hd (printResult p r) =
      cyan p ((if IsIPv6 r then ''AAAA'' else ''A'') @ '' Record'') @ '': '' @ yellow p (IP r) @ nl"
    by (rule printResult_header)
  then have "hd (printResult p r) =
      cyan p ((if To4 ip = None then ''AAAA'' else ''A'') @ '' Record'') @ '': ''
      @ yellow p (IPString e ip) @ nl"
    by (simp only: a b)
  ultimately show ?thesis using a b by (intro bexI [of _ ip] conjI)
qed

text \<open>
  Claim C9. Let the target be accepted and resolved to the addresses \<open>ips\<close>, and take any
  state the process can reach. The tasks that \<^verbatim>\<open>main\<close> launched are those of the addresses
  that pass the filter, and the record of each carries \<open>IsIPv6 = (To4 ip = None)\<close> for its
  address \<open>ip\<close>, whatever its goroutines have done since. Every record in the channel,
  collected or rendered belongs to one of the resolved addresses, carries that tag, and
  is rendered under the header \<^verbatim>\<open>A Record\<close> when the address has a 4-byte form and under
  \<^verbatim>\<open>AAAA Record\<close> otherwise. With the IPv4 flag alone the tasks are exactly those of the
  addresses with a 4-byte form, all tagged IPv4. And the IPv4-mapped address
  \<^verbatim>\<open>::ffff:1.2.3.4\<close> has a 4-byte form.
\<close>

theorem family_by_To4:
  assumes v: "validateInput e (Target c) = (qs, None)"
    and r: "resolve e (Target c) = (qs', Inr ips)"
    and x: "exec e sched (main e (KongParsed c)) = Some s"
  shows "map (\<lambda>t. (IP (result t), IsIPv6 (result t))) (tasks s) =
           map (\<lambda>ip. (IPString e ip, To4 ip = None))
               (filter (\<lambda>ip. (IPv4 c \<and> To4 ip \<noteq> None) \<or> (IPv6 c \<and> To4 ip = None)
                               \<or> (\<not> IPv4 c \<and> \<not> IPv6 c)) ips)
         \<and> (\<forall>rec \<in> set (chan s) \<union> set (results s) \<union> set (rendered s).
               \<exists>ip \<in> set ips.
                  IP rec = IPString e ip \<and> IsIPv6 rec = (To4 ip = None)
                \<and> hd (printResult p rec) =
                    cyan p ((if To4 ip = None then ''AAAA'' else ''A'') @ '' Record'') @ '': ''
                    @ yellow p (IPString e ip) @ nl)
         \<and> (IPv4 c \<and> \<not> IPv6 c \<longrightarrow>
               map (\<lambda>t. (IP (result t), IsIPv6 (result t))) (tasks s) =
                 map (\<lambda>ip. (IPString e ip, False)) (filter (\<lambda>ip. To4 ip \<noteq> None) ips))
         \<and> To4 mapped1234 = Some [1, 2, 3, 4]"
proof -
  let ?kept = "filter (keeps c) ips"
  have k: "keeps c = (\<lambda>ip. (IPv4 c \<and> To4 ip \<noteq> None) \<or> (IPv6 c \<and> To4 ip = None)
                               \<or> (\<not> IPv4 c \<and> \<not> IPv6 c))"
    by (rule ext) (simp add: keeps_iff)
  have inv: "family_inv e ?kept s"
  proof (rule exec_invariant [where P = "family_inv e ?kept", OF _ _ x])
    show "family_inv e ?kept (main e (KongParsed c))"
      by (rule family_inv_main [OF v r])
  next
    fix a s1 s2 assume "family_inv e ?kept s1" and "step e a s1 = Some s2"
    then show "family_inv e ?kept s2" by (rule family_inv_step)
  qed
  note 1 = family_inv_tasks [OF inv]
  have 2: "\<forall>rec \<in> set (chan s) \<union> set (results s) \<union> set (rendered s).
               \<exists>ip \<in> set ips.
                  IP rec = IPString e ip \<and> IsIPv6 rec = (To4 ip = None)
                \<and> hd (printResult p rec) =
                    cyan p ((if To4 ip = None then ''AAAA'' else ''A'') @ '' Record'') @ '': ''
                    @ yellow p (IPString e ip) @ nl"
    by (rule ballI) (rule family_inv_record [OF inv])
  have 3: "map (\<lambda>t. (IP (result t), IsIPv6 (result t))) (tasks s) =
                 map (\<lambda>ip. (IPString e ip, False)) (filter (\<lambda>ip. To4 ip \<noteq> None) ips)"
    if f: "IPv4 c \<and> \<not> IPv6 c"
  proof -
    from f have "keeps c = (\<lambda>ip. To4 ip \<noteq> None)" by (auto simp: k)
    then have "map (\<lambda>ip. (IPString e ip, To4 ip = None)) ?kept
              = map (\<lambda>ip. (IPString e ip, False)) (filter (\<lambda>ip. To4 ip \<noteq> None) ips)"
      by (simp cong: map_cong)
    then show ?thesis by (simp only: 1)
  qed
  have 4: "To4 mapped1234 = Some [1, 2, 3, 4]"
    by (simp add: To4_def mapped1234_def)
  have 5: "map (\<lambda>t. (IP (result t), IsIPv6 (result t))) (tasks s) =
           map (\<lambda>ip. (IPString e ip, To4 ip = None))
               (filter (\<lambda>ip. (IPv4 c \<and> To4 ip \<noteq> None) \<or> (IPv6 c \<and> To4 ip = None)
                               \<or> (\<not> IPv4 c \<and> \<not> IPv6 c)) ips)"
    using 1 unfolding k .
  show ?thesis
    by (intro conjI impI) (rule 5, rule 2, erule 3, rule 4)
qed

theorem family_by_To4_witness:
  "map_option (\<lambda>s. (rendered s, map (hd \<circ> printResult plain) (rendered s)))
     (exec (upEnv ''SUCCESS'' [''irc1.example.net'', ''irc2.example.net''])
        (runTask 0 @ [CloseResultChan, Collect, CloseDone, Select DoneClosed])
        (main (upEnv ''SUCCESS'' [''irc1.example.net'', ''irc2.example.net''])
           (KongParsed (cli True False ''::ffff:1.2.3.4''))))
     = Some ([okRecord ''1.2.3.4'' False], [''A Record: 1.2.3.4'' @ nl])
   \<and> map_option (\<lambda>s. (rendered s, map (hd \<circ> printResult plain) (rendered s)))
     (exec (upEnv ''SUCCESS'' [''irc1.example.net'', ''irc2.example.net''])
        (runTask 1 @ runTask 0 @ [CloseResultChan, Collect, Collect, CloseDone, Select DoneClosed])
        (main (upEnv ''SUCCESS'' [''irc1.example.net'', ''irc2.example.net''])
           (KongParsed (cli False False ''example.com''))))
     = Some ([okRecord ''2001:db8::1'' True, okRecord ''1.2.3.4'' False],
             [''AAAA Record: 2001:db8::1'' @ nl, ''A Record: 1.2.3.4'' @ nl])
   \<and> map (\<lambda>t. (IP (result t), IsIPv6 (result t)))
        (tasks (main (upEnv ''SUCCESS'' []) (KongParsed (cli True False ''example.com''))))
     = [(''1.2.3.4'', False)]"
proof -
  let ?e = "upEnv ''SUCCESS'' [''irc1.example.net'', ''irc2.example.net'']"
  let ?c1 = "cli True False ''::ffff:1.2.3.4''"
  let ?c2 = "cli False False ''example.com''"
  let ?c3 = "cli True False ''example.com''"
  have v1: "validateInput ?e (Target ?c1) = ([], None)"
    and r1: "resolve ?e (Target ?c1) = ([], Inr [mapped1234])"
    by (simp_all add: world_defs)
  have v2: "validateInput (upEnv st sv) (Target (cli a b ''example.com''))
              = ([QueryHost ''example.com''], None)"
    and r2: "resolve (upEnv st sv) (Target (cli a b ''example.com''))
              = ([QueryIP ''example.com''], Inr [mapped1234, v6addr])" for st sv a b
    by (simp_all add: world_defs)
  obtain s1 where x1: "exec ?e (runTask 0 @ [CloseResultChan, Collect, CloseDone, Select DoneClosed])
        (main ?e (KongParsed ?c1)) = Some s1"
    and n1: "length (rendered s1) = 1" and a1: "rendered s1 = [okRecord (IP (hd (rendered s1))) (IsIPv6 (hd (rendered s1)))]"
    by (simp add: runTask_def okRecord_def run_defs task_step_defs fetch_defs world_defs)
  obtain s2 where x2: "exec ?e (runTask 1 @ runTask 0 @ [CloseResultChan, Collect, Collect, CloseDone, Select DoneClosed])
        (main ?e (KongParsed ?c2)) = Some s2"
    and a2: "rendered s2 = [okRecord ''2001:db8::1'' True, okRecord ''1.2.3.4'' False]"
    by (simp add: runTask_def okRecord_def run_defs task_step_defs fetch_defs world_defs)
  have x3: "exec (upEnv ''SUCCESS'' []) [] (main (upEnv ''SUCCESS'' []) (KongParsed ?c3))
              = Some (main (upEnv ''SUCCESS'' []) (KongParsed ?c3))"
    by simp
  from family_by_To4 [OF v1 r1 x1, of plain] a1 n1
  have b1: "rendered s1 = [okRecord ''1.2.3.4'' False]"
    by (cases "rendered s1") (auto simp: world_defs)
  from family_by_To4 [OF v2 r2 x3, of plain]
  have b3: "map (\<lambda>t. (IP (result t), IsIPv6 (result t)))
        (tasks (main (upEnv ''SUCCESS'' []) (KongParsed ?c3))) = [(''1.2.3.4'', False)]"
    by (simp add: world_defs)
  show ?thesis
    using x1 x2 a2 b1 b3
    by (simp add: okRecord_def printResult_def plain_def)
qed

end
